theory Spec2Isabelle
  imports Main
begin

section \<open>Python values, exceptions and strings\<close>

text \<open>
  The values that travel through the entity untyped (\<^verbatim>\<open>Any\<close> in the annotations): event
  payloads, construction properties, instance attributes, and whatever the inherited
  \<^verbatim>\<open>dict\<close> interface lets a caller put into an entity beside its components.
\<close>

datatype pyval =
    PyNone
  | PyBool bool
  | PyInt int
  | PyStr string
  | PyList "pyval list"
  | PyDict "(string \<times> pyval) list"

text \<open>Python's truth value of such a value, as \<^verbatim>\<open>if components:\<close> tests it.\<close>

fun truthy_val :: "pyval \<Rightarrow> bool" where
  "truthy_val PyNone = False"
| "truthy_val (PyBool b) = b"
| "truthy_val (PyInt i) = (i \<noteq> 0)"
| "truthy_val (PyStr s) = (s \<noteq> [])"
| "truthy_val (PyList xs) = (xs \<noteq> [])"
| "truthy_val (PyDict d) = (d \<noteq> [])"

text \<open>
  The exceptions of the modelled code. \<^verbatim>\<open>KeyError\<close> carries the key that was not found; the
  specification calls it NotFound when the component store raises it and NotRegistered
  when the registry does. \<^verbatim>\<open>TypeError\<close> is what a constructor raises on arguments it does not
  take (InvalidConfiguration), \<^verbatim>\<open>AttributeError\<close> what a method call on an object without
  that method raises.
\<close>

datatype error = KeyError string | TypeError | AttributeError

text \<open>
  \<^verbatim>\<open>str.upper()\<close> on ASCII text: the letters a to z move to A to Z, every other character
  stays. Names outside ASCII are outside this model.
\<close>

definition upper_char :: "char \<Rightarrow> char" where
  "upper_char c =
     (case map_of (zip ''abcdefghijklmnopqrstuvwxyz'' ''ABCDEFGHIJKLMNOPQRSTUVWXYZ'') c of
        Some u \<Rightarrow> u
      | None \<Rightarrow> c)"

definition upper :: "string \<Rightarrow> string" where
  "upper s = map upper_char s"

section \<open>Dictionaries in insertion order\<close>

text \<open>
  A Python \<^verbatim>\<open>dict\<close> keeps its keys in the order of their first insertion, and assigning to
  a key that is present replaces the value where it stands. \<^verbatim>\<open>Entity\<close> is a subclass of
  \<^verbatim>\<open>defaultdict\<close> whose constructor never sets a default factory, so reading an absent key
  raises \<^verbatim>\<open>KeyError\<close>.
\<close>

type_synonym 'a pydict = "(string \<times> 'a) list"

fun dict_set :: "'a pydict \<Rightarrow> string \<Rightarrow> 'a \<Rightarrow> 'a pydict" where
  "dict_set [] k v = [(k, v)]"
| "dict_set ((k', v') # d) k v =
     (if k' = k then (k', v) # d else (k', v') # dict_set d k v)"

definition dict_get :: "'a pydict \<Rightarrow> string \<Rightarrow> error + 'a" where
  "dict_get d k = (case map_of d k of None \<Rightarrow> Inl (KeyError k) | Some v \<Rightarrow> Inr v)"

definition dict_del :: "'a pydict \<Rightarrow> string \<Rightarrow> 'a pydict" where
  "dict_del d k = filter (\<lambda>kv. fst kv \<noteq> k) d"

definition dict_values :: "'a pydict \<Rightarrow> 'a list" where
  "dict_values d = map snd d"

section \<open>Events and components\<close>

text \<open>
  Modelled from the spec: \<^verbatim>\<open>EntityEvent\<close> (entity\_event.py is not among the sources). An
  event has a name, a payload that handlers may change, and a flag \<^verbatim>\<open>prevented\<close> that is
  false when the event is constructed.
\<close>

record EntityEvent =
  evt_name :: string
  data :: pyval
  prevented :: bool

definition EntityEvent_init :: "string \<Rightarrow> pyval \<Rightarrow> EntityEvent" where
  "EntityEvent_init nm d = \<lparr>evt_name = nm, data = d, prevented = False\<rparr>"

text \<open>
  Modelled from the spec: \<^verbatim>\<open>Component\<close> (the class is not among the sources). A component
  kind (a \<^verbatim>\<open>Component\<close> subclass, called a definition by the registry) has an identifier, a
  constructor taking named arguments, and an event hook. An instance belongs to its kind
  and holds its own attributes. The constructor and the hook are parameters of the model:
  the hook is given by what it does to the event it receives, and it is taken to return
  normally and to leave the entity's store alone.
\<close>

record Definition =
  ident :: string
  init :: "(string \<rightharpoonup> pyval) \<Rightarrow> error + (string \<rightharpoonup> pyval)"
  event_hook :: "(string \<rightharpoonup> pyval) \<Rightarrow> EntityEvent \<Rightarrow> EntityEvent"

text \<open>
  Modelled from the spec: the attribute \<^verbatim>\<open>name\<close> of a component kind, "canonical identifier
  shared by all instances of a component kind; used as the store key (case-insensitive,
  canonicalized to uppercase)". The code under verification reads it and never writes it.
\<close>

definition name :: "Definition \<Rightarrow> string" where
  "name k = upper (ident k)"

record Component =
  cls :: Definition
  attrs :: "string \<rightharpoonup> pyval"

text \<open>Modelled from the spec: calling a definition with \<^verbatim>\<open>**properties\<close> builds an instance of it.\<close>

definition instantiate :: "Definition \<Rightarrow> (string \<rightharpoonup> pyval) \<Rightarrow> error + Component" where
  "instantiate k properties =
     (case init k properties of
        Inl err \<Rightarrow> Inl err
      | Inr fs \<Rightarrow> Inr \<lparr>cls = k, attrs = fs\<rparr>)"

text \<open>\<^verbatim>\<open>component._on_event(evt)\<close>: the kind's hook, run on the instance.\<close>

definition on_event :: "Component \<Rightarrow> EntityEvent \<Rightarrow> EntityEvent" where
  "on_event c evt = event_hook (cls c) (attrs c) evt"

text \<open>
  What the methods accept where the source says \<^verbatim>\<open>Union[str, Component]\<close>: a string, or a
  reference to a component kind, of which only the attribute \<^verbatim>\<open>name\<close> is read.
\<close>

datatype arg = Str string | Ref Definition

section \<open>The component registry (registries/component\_registry.py)\<close>

text \<open>
  Modelled from the spec: the base class \<^verbatim>\<open>Registry\<close> (not among the sources), a mapping from
  names to definitions whose keyed lookup fails when the name has no entry.
\<close>

type_synonym registry = "string \<rightharpoonup> Definition"

definition registry_get :: "registry \<Rightarrow> string \<Rightarrow> error + Definition" where
  "registry_get reg k = (case reg k of None \<Rightarrow> Inl (KeyError k) | Some d \<Rightarrow> Inr d)"

definition register :: "registry \<Rightarrow> Definition \<Rightarrow> registry" where
  "register reg component = reg(name component \<mapsto> component)"

text \<open>The first four lines of \<^verbatim>\<open>create\<close>: the key under which the definition is looked up.\<close>

fun registry_key :: "arg \<Rightarrow> string" where
  "registry_key (Str s) = upper s"
| "registry_key (Ref k) = name k"

definition create :: "registry \<Rightarrow> arg \<Rightarrow> (string \<rightharpoonup> pyval) \<Rightarrow> error + Component" where
  "create reg component properties =
     (case registry_get reg (registry_key component) of
        Inl err \<Rightarrow> Inl err
      | Inr definition \<Rightarrow> instantiate definition properties)"

section \<open>The entity (entity.py)\<close>

text \<open>
  A value of the store: a component instance, or anything else a caller has put there. A
  component instance is truthy, as every object is whose class defines no truth value or
  length of its own.
\<close>

datatype obj = Comp Component | Val pyval

fun truthy :: "obj \<Rightarrow> bool" where
  "truthy (Comp c) = True"
| "truthy (Val v) = truthy_val v"

record Entity =
  uid :: string
  store :: "obj pydict"
  is_destroyed :: bool

text \<open>
  Modelled from the spec: the owning context \<^verbatim>\<open>Engine\<close> (not among the sources). It holds the
  component registry, and its \<^verbatim>\<open>create_component\<close> delegates to \<^verbatim>\<open>ComponentRegistry.create\<close>.
  The identifier it would generate for a new entity is passed to the constructor below.
\<close>

record Engine =
  component_registry :: registry

definition create_component :: "Engine \<Rightarrow> arg \<Rightarrow> (string \<rightharpoonup> pyval) \<Rightarrow> error + Component" where
  "create_component ecs component properties = create (component_registry ecs) component properties"

text \<open>
  \<^verbatim>\<open>Entity.__init__\<close>: \<open>generated\<close> is what \<^verbatim>\<open>ecs.generate_uid()\<close> returns. The constructor of
  the base class is not called, so the new entity holds nothing.
\<close>

definition Entity_init :: "string \<Rightarrow> string option \<Rightarrow> Entity" where
  "Entity_init generated u =
     \<lparr>uid = (case u of Some i \<Rightarrow> i | None \<Rightarrow> generated), store = [], is_destroyed = False\<rparr>"

text \<open>
  The calls an entity makes on its collaborators, in the order it makes them. A call that
  hands over the entity, or runs on a component of it, is recorded with the entity as it is
  at that moment.
\<close>

datatype call =
    OnEvent Component EntityEvent
  | OnAttached Component Entity
  | ComponentDestroy Component Entity
  | ComponentRemove Component Entity
  | OnEntityDestroyed Entity

text \<open>\<^verbatim>\<open>__getitem__\<close>: the key it reads, and the read.\<close>

fun entity_key :: "arg \<Rightarrow> string" where
  "entity_key (Str s) = upper s"
| "entity_key (Ref k) = upper (name k)"

definition getitem :: "Entity \<Rightarrow> arg \<Rightarrow> error + obj" where
  "getitem e component = dict_get (store e) (entity_key component)"

text \<open>
  \<^verbatim>\<open>has\<close>: the result is Python's \<^verbatim>\<open>True\<close>, \<^verbatim>\<open>False\<close>, or \<^verbatim>\<open>None\<close> when the entry is there but
  falsy and the function ends without a \<^verbatim>\<open>return\<close>. Only \<^verbatim>\<open>KeyError\<close> is caught.
\<close>

definition has :: "Entity \<Rightarrow> arg \<Rightarrow> error + pyval" where
  "has e component =
     (case (case component of
              Str s \<Rightarrow> getitem e (Str s)
            | Ref k \<Rightarrow> getitem e (Str (name k))) of
        Inr components \<Rightarrow> if truthy components then Inr (PyBool True) else Inr PyNone
      | Inl (KeyError k) \<Rightarrow> Inr (PyBool False)
      | Inl err \<Rightarrow> Inl err)"

text \<open>\<^verbatim>\<open>_attach\<close> and \<^verbatim>\<open>add\<close>: the result, the entity afterwards, the calls made.\<close>

definition attach :: "Entity \<Rightarrow> Component \<Rightarrow> bool \<times> Entity \<times> call list" where
  "attach e component =
     (let e' = e\<lparr>store := dict_set (store e) (name (cls component)) (Comp component)\<rparr>
      in (True, e', [OnAttached component e']))"

definition add :: "Engine \<Rightarrow> Entity \<Rightarrow> arg \<Rightarrow> (string \<rightharpoonup> pyval)
    \<Rightarrow> (error + bool) \<times> Entity \<times> call list" where
  "add ecs e component properties =
     (case create_component ecs component properties of
        Inl err \<Rightarrow> (Inl err, e, [])
      | Inr c \<Rightarrow> (case attach e c of (r, e', calls) \<Rightarrow> (Inr r, e', calls)))"

text \<open>
  \<^verbatim>\<open>destroy\<close>: the flag is written first; then every value of the store is asked to destroy
  itself, which a value that is no component cannot do; then the owning context is told.
\<close>

fun destroy_values :: "Entity \<Rightarrow> obj list \<Rightarrow> error option \<times> call list" where
  "destroy_values e [] = (None, [])"
| "destroy_values e (Comp c # vs) =
     (case destroy_values e vs of (r, calls) \<Rightarrow> (r, ComponentDestroy c e # calls))"
| "destroy_values e (Val v # vs) = (Some AttributeError, [])"

definition destroy :: "Entity \<Rightarrow> (error + unit) \<times> Entity \<times> call list" where
  "destroy e =
     (let e' = e\<lparr>is_destroyed := True\<rparr> in
      case destroy_values e' (dict_values (store e')) of
        (Some err, calls) \<Rightarrow> (Inl err, e', calls)
      | (None, calls) \<Rightarrow> (Inr (), e', calls @ [OnEntityDestroyed e']))"

text \<open>
  \<^verbatim>\<open>fire_event\<close>: the loop over the values of the store, then the function. The loop returns
  the event as the hooks left it and the hooks it called, each with the event it was given.
\<close>

fun dispatch :: "obj list \<Rightarrow> EntityEvent \<Rightarrow> EntityEvent \<times> call list" where
  "dispatch [] evt = (evt, [])"
| "dispatch (Comp c # vs) evt =
     (let evt' = on_event c evt in
      if prevented evt' then (evt', [OnEvent c evt])
      else (case dispatch vs evt' of (r, calls) \<Rightarrow> (r, OnEvent c evt # calls)))"
| "dispatch (Val v # vs) evt = dispatch vs evt"

definition fire_event :: "Entity \<Rightarrow> string \<Rightarrow> pyval \<Rightarrow> EntityEvent \<times> call list" where
  "fire_event e nm d = dispatch (dict_values (store e)) (EntityEvent_init nm d)"

text \<open>
  \<^verbatim>\<open>remove\<close>: both branches read the store through \<^verbatim>\<open>__getitem__\<close> and call \<^verbatim>\<open>remove()\<close> on what
  they find.

  Modelled from the spec: \<^verbatim>\<open>Component.remove\<close> (not among the sources), which "is responsible
  for notifying its hooks and signaling the Entity to drop the store entry", and hands the
  instance back.
\<close>

definition component_remove :: "Entity \<Rightarrow> Component \<Rightarrow> Component option \<times> Entity \<times> call list" where
  "component_remove e c =
     (Some c, e\<lparr>store := dict_del (store e) (name (cls c))\<rparr>, [ComponentRemove c e])"

definition remove :: "Entity \<Rightarrow> arg \<Rightarrow> (error + Component option) \<times> Entity \<times> call list" where
  "remove e component =
     (case getitem e component of
        Inl err \<Rightarrow> (Inl err, e, [])
      | Inr (Val v) \<Rightarrow> (Inl AttributeError, e, [])
      | Inr (Comp c) \<Rightarrow> (case component_remove e c of (r, e', calls) \<Rightarrow> (Inr r, e', calls)))"

text \<open>
  The methods of an entity as operations, and the entity as a call leaves it, whether the
  call returns or raises. \<^verbatim>\<open>has\<close>, \<^verbatim>\<open>owns\<close>, \<^verbatim>\<open>fire_event\<close> and the indexed read assign nothing to
  the entity. \<^verbatim>\<open>owns\<close> evaluates \<^verbatim>\<open>component.entity == self\<close> and returns the outcome; that
  outcome rests on the identity of component objects, which the values of this model do
  not carry, so only the operation's effect on the entity is given.
\<close>

datatype op =
    Add arg "string \<rightharpoonup> pyval"
  | Remove arg
  | Has arg
  | Owns Component
  | FireEvent string pyval
  | Destroy
  | GetItem arg

fun after :: "Engine \<Rightarrow> Entity \<Rightarrow> op \<Rightarrow> Entity" where
  "after ecs e (Add component properties) = fst (snd (add ecs e component properties))"
| "after ecs e (Remove component) = fst (snd (remove e component))"
| "after ecs e (Has component) = e"
| "after ecs e (Owns component) = e"
| "after ecs e (FireEvent nm d) = e"
| "after ecs e Destroy = fst (snd (destroy e))"
| "after ecs e (GetItem component) = e"

section \<open>Notions used to state the properties\<close>

text \<open>The component instances among the values of a store, in the order of the store.\<close>

fun components_of :: "obj list \<Rightarrow> Component list" where
  "components_of [] = []"
| "components_of (Comp c # vs) = c # components_of vs"
| "components_of (Val v # vs) = components_of vs"

definition attached :: "Entity \<Rightarrow> Component list" where
  "attached e = components_of (dict_values (store e))"

text \<open>
  The event after the hooks of the given components have run on it one after the other, and
  the calls that this makes: each hook receives the event as its predecessor left it.
\<close>

fun feed :: "Component list \<Rightarrow> EntityEvent \<Rightarrow> EntityEvent" where
  "feed [] evt = evt"
| "feed (c # cs) evt = feed cs (on_event c evt)"

fun hook_calls :: "Component list \<Rightarrow> EntityEvent \<Rightarrow> call list" where
  "hook_calls [] evt = []"
| "hook_calls (c # cs) evt = OnEvent c evt # hook_calls cs (on_event c evt)"

text \<open>\<^verbatim>\<open>isinstance(component, Component)\<close> on a value of the store.\<close>

fun is_component :: "obj \<Rightarrow> bool" where
  "is_component (Comp c) = True"
| "is_component (Val v) = False"

section \<open>Example kinds\<close>

text \<open>
  The kinds of the specification's scenarios: a position built from \<open>x\<close> and \<open>y\<close> that
  ignores events, an armour that prevents any event whose payload has a negative
  \<open>amount\<close>, and a health that counts the event as handled by replacing its payload.
\<close>

definition Position :: Definition where
  "Position =
     \<lparr>ident = ''Position'',
      init = (\<lambda>p. case (p ''x'', p ''y'') of
                     (Some x, Some y) \<Rightarrow> Inr p
                   | _ \<Rightarrow> Inl TypeError),
      event_hook = (\<lambda>self evt. evt)\<rparr>"

definition Armor :: Definition where
  "Armor =
     \<lparr>ident = ''Armor'',
      init = (\<lambda>p. Inr p),
      event_hook = (\<lambda>self evt.
         case data evt of
           PyDict d \<Rightarrow> (case map_of d ''amount'' of
                          Some (PyInt n) \<Rightarrow> if n < 0 then evt\<lparr>prevented := True\<rparr> else evt
                        | _ \<Rightarrow> evt)
         | _ \<Rightarrow> evt)\<rparr>"

definition Health :: Definition where
  "Health =
     \<lparr>ident = ''Health'',
      init = (\<lambda>p. Inr p),
      event_hook = (\<lambda>self evt. evt\<lparr>data := PyStr ''handled''\<rparr>)\<rparr>"

definition position :: Component where
  "position = \<lparr>cls = Position, attrs = [''x'' \<mapsto> PyInt 1, ''y'' \<mapsto> PyInt 2]\<rparr>"

definition armor :: Component where
  "armor = \<lparr>cls = Armor, attrs = Map.empty\<rparr>"

definition health :: Component where
  "health = \<lparr>cls = Health, attrs = Map.empty\<rparr>"

definition hero :: Entity where
  "hero = \<lparr>uid = ''hero'', store = [(''ARMOR'', Comp armor), (''HEALTH'', Comp health)],
           is_destroyed = False\<rparr>"

definition cluttered :: Entity where
  "cluttered = hero\<lparr>store := [(''ARMOR'', Comp armor), (''junk'', Val (PyInt 7)),
                                (''HEALTH'', Comp health)]\<rparr>"

definition scout :: Entity where
  "scout = \<lparr>uid = ''scout'', store = [(''POSITION'', Comp position)], is_destroyed = False\<rparr>"

definition damage :: "int \<Rightarrow> pyval" where
  "damage n = PyDict [(''amount'', PyInt n)]"

definition world :: Engine where
  "world = \<lparr>component_registry = register (register Map.empty Armor) Position\<rparr>"

section \<open>Facts about the building blocks\<close>

lemma upper_char_idem: "upper_char (upper_char c) = upper_char c"
  by (simp add: upper_char_def)

lemma upper_idem: "upper (upper s) = upper s"
  by (simp add: upper_def upper_char_idem)

lemma upper_name: "upper (name k) = name k"
  by (simp add: name_def upper_idem)

lemma name_Position: "name Position = ''POSITION''"
  by (simp add: name_def Position_def upper_def upper_char_def)

lemma name_Armor: "name Armor = ''ARMOR''"
  by (simp add: name_def Armor_def upper_def upper_char_def)

lemma upper_examples:
  "upper ''position'' = ''POSITION''" "upper ''pOsITiOn'' = ''POSITION''"
  "upper ''mana'' = ''MANA''" "upper ''armor'' = ''ARMOR''"
  by (simp_all add: upper_def upper_char_def)

lemma map_of_dict_set: "map_of (dict_set d k v) k = Some v"
  by (induction d) auto

lemma components_of_append: "components_of (xs @ ys) = components_of xs @ components_of ys"
  by (induction xs rule: components_of.induct) simp_all


section \<open>Name resolution\<close>

text \<open>
  C5. For every argument, a string in any casing or a reference to a component kind,
  \<^verbatim>\<open>ComponentRegistry.create\<close> and the entity's indexed read compute the same key. The two
  functions are written differently: \<^verbatim>\<open>create\<close> takes the \<^verbatim>\<open>name\<close> of a reference as it is,
  the entity puts it through \<^verbatim>\<open>upper()\<close> once more. They agree because a kind's \<^verbatim>\<open>name\<close> is
  already in upper case.
\<close>

theorem create_key_as_entity: "registry_key component = entity_key component"
  by (cases component) (simp_all add: upper_name)

text \<open>
  C3. On an entity that holds a value under the name of a kind, the indexed read and
  \<^verbatim>\<open>has\<close> give the same answer for every casing of the kind's name and for the reference to
  the kind; the key read is the upper case of a string, and the \<^verbatim>\<open>name\<close> of a reference.
\<close>

theorem lookup_case_and_reference_insensitive:
  assumes "map_of (store e) (name k) = Some v" and "upper s = name k"
  shows "getitem e (Str s) = Inr v \<and> getitem e (Ref k) = Inr v
       \<and> has e (Str s) = has e (Ref k)
       \<and> has e (Ref k) = Inr (if truthy v then PyBool True else PyNone)
       \<and> entity_key (Str s) = upper s \<and> entity_key (Ref k) = name k"
  using assms by (simp add: getitem_def has_def dict_get_def upper_name)

theorem lookup_case_and_reference_insensitive_witness:
  "getitem scout (Str ''pOsITiOn'') = Inr (Comp position)
 \<and> getitem scout (Ref Position) = Inr (Comp position)
 \<and> has scout (Str ''pOsITiOn'') = has scout (Ref Position)
 \<and> has scout (Ref Position) = Inr (PyBool True)"
proof -
  have h1: "map_of (store scout) (name Position) = Some (Comp position)"
    by (simp add: scout_def name_Position)
  have h2: "upper ''pOsITiOn'' = name Position"
    by (simp add: name_Position upper_examples)
  show ?thesis
    using lookup_case_and_reference_insensitive [OF h1 h2] by simp
qed

section \<open>The registry\<close>

text \<open>
  C4. \<^verbatim>\<open>ComponentRegistry.create\<close> fails with NotRegistered (the \<^verbatim>\<open>KeyError\<close> of the
  registry) when no definition stands under the canonical name; when one does, the result
  is that of calling the definition with the properties as named arguments, which is the
  new instance whenever the constructor accepts them.
\<close>

theorem create_unregistered_or_instance:
  "(reg (registry_key component) = None \<longrightarrow>
      create reg component properties = Inl (KeyError (registry_key component)))
 \<and> (\<forall>d. reg (registry_key component) = Some d \<longrightarrow>
      create reg component properties = instantiate d properties
    \<and> (\<forall>fs. init d properties = Inr fs \<longrightarrow>
         create reg component properties = Inr \<lparr>cls = d, attrs = fs\<rparr>))"
  by (simp add: create_def registry_get_def instantiate_def)

theorem create_unregistered_or_instance_witness:
  "create (component_registry world) (Str ''mana'') Map.empty = Inl (KeyError ''MANA'')
 \<and> create (component_registry world) (Str ''position'') [''x'' \<mapsto> PyInt 1, ''y'' \<mapsto> PyInt 2]
     = Inr position"
proof -
  have h1: "component_registry world (registry_key (Str ''mana'')) = None"
    by (simp add: world_def register_def name_Position name_Armor upper_examples)
  have h2: "component_registry world (registry_key (Str ''position'')) = Some Position"
    by (simp add: world_def register_def name_Position name_Armor upper_examples)
  have h3: "init Position [''x'' \<mapsto> PyInt 1, ''y'' \<mapsto> PyInt 2]
            = Inr [''x'' \<mapsto> PyInt 1, ''y'' \<mapsto> PyInt 2]"
    by (simp add: Position_def)
  have a: "create (component_registry world) (Str ''mana'') Map.empty
           = Inl (KeyError (registry_key (Str ''mana'')))"
    using create_unregistered_or_instance
            [of "component_registry world" "Str ''mana''" Map.empty] h1
    by blast
  have b: "create (component_registry world) (Str ''position'')
             [''x'' \<mapsto> PyInt 1, ''y'' \<mapsto> PyInt 2]
           = Inr \<lparr>cls = Position, attrs = [''x'' \<mapsto> PyInt 1, ''y'' \<mapsto> PyInt 2]\<rparr>"
    using create_unregistered_or_instance
            [of "component_registry world" "Str ''position''"
                "[''x'' \<mapsto> PyInt 1, ''y'' \<mapsto> PyInt 2]"] h2 h3
    by blast
  show ?thesis
    using a b by (simp add: upper_examples position_def)
qed

section \<open>Reading the store\<close>

text \<open>
  C6. \<^verbatim>\<open>has\<close> never raises a lookup error: it always returns a value; that value is
  \<^verbatim>\<open>True\<close> exactly when the store holds a non-empty (truthy) entry under the canonical name;
  and when the name is absent the \<^verbatim>\<open>KeyError\<close> of the lookup is turned into \<^verbatim>\<open>False\<close>.
\<close>

theorem has_never_raises:
  "(\<exists>r. has e component = Inr r)
 \<and> (has e component = Inr (PyBool True)
      \<longleftrightarrow> (\<exists>v. map_of (store e) (entity_key component) = Some v \<and> truthy v))
 \<and> (map_of (store e) (entity_key component) = None
      \<longrightarrow> has e component = Inr (PyBool False))"
  by (cases component)
     (auto simp: has_def getitem_def dict_get_def split: option.splits)

theorem has_never_raises_witness:
  "has hero (Str ''mana'') = Inr (PyBool False) \<and> has hero (Str ''armor'') = Inr (PyBool True)"
proof -
  have h1: "map_of (store hero) (entity_key (Str ''mana'')) = None"
    by (simp add: hero_def upper_examples)
  have h2: "\<exists>v. map_of (store hero) (entity_key (Str ''armor'')) = Some v \<and> truthy v"
    by (simp add: hero_def upper_examples)
  show ?thesis
    using has_never_raises [of hero "Str ''mana''"] has_never_raises [of hero "Str ''armor''"]
          h1 h2
    by blast
qed

text \<open>
  C7. When the store has no entry under the canonical name of the argument, the indexed
  read and \<^verbatim>\<open>remove\<close> both fail with NotFound (the \<^verbatim>\<open>KeyError\<close> of the store); \<^verbatim>\<open>remove\<close>
  then leaves the entity as it was and calls nothing.
\<close>

theorem absent_name_is_NotFound:
  assumes "map_of (store e) (entity_key component) = None"
  shows "getitem e component = Inl (KeyError (entity_key component))
       \<and> remove e component = (Inl (KeyError (entity_key component)), e, [])"
  using assms by (simp add: getitem_def remove_def dict_get_def)

theorem absent_name_is_NotFound_witness:
  "getitem hero (Str ''MANA'') = Inl (KeyError ''MANA'')
 \<and> remove hero (Str ''MANA'') = (Inl (KeyError ''MANA''), hero, [])
 \<and> getitem hero (Ref Position) = Inl (KeyError ''POSITION'')"
proof -
  have h1: "map_of (store hero) (entity_key (Str ''MANA'')) = None"
    by (simp add: hero_def upper_def upper_char_def)
  have h2: "map_of (store hero) (entity_key (Ref Position)) = None"
    by (simp add: hero_def name_Position upper_def upper_char_def)
  have k1: "entity_key (Str ''MANA'') = ''MANA''"
    by (simp add: upper_def upper_char_def)
  have k2: "entity_key (Ref Position) = ''POSITION''"
    by (simp add: name_Position upper_def upper_char_def)
  show ?thesis
    using absent_name_is_NotFound [OF h1] absent_name_is_NotFound [OF h2]
    unfolding k1 k2 by simp
qed

section \<open>Event dispatch\<close>

lemma dispatch_components: "dispatch vs evt = dispatch (map Comp (components_of vs)) evt"
  by (induction vs evt rule: dispatch.induct) (simp_all add: Let_def)

lemma fire_event_attached:
  "fire_event e nm d = dispatch (map Comp (attached e)) (EntityEvent_init nm d)"
  unfolding fire_event_def attached_def by (rule dispatch_components)

lemma dispatch_all:
  "\<forall>j<length cs. \<not> prevented (feed (take (Suc j) cs) evt)
   \<Longrightarrow> dispatch (map Comp cs) evt = (feed cs evt, hook_calls cs evt)"
proof (induction cs arbitrary: evt)
  case Nil
  show ?case by simp
next
  case (Cons c cs)
  from Cons.prems have first: "\<not> prevented (on_event c evt)"
    by (auto dest: spec [of _ 0])
  have rest: "\<forall>j<length cs. \<not> prevented (feed (take (Suc j) cs) (on_event c evt))"
  proof (intro allI impI)
    fix j assume "j < length cs"
    with Cons.prems have "\<not> prevented (feed (take (Suc (Suc j)) (c # cs)) evt)"
      by (metis Suc_less_eq length_Cons)
    then show "\<not> prevented (feed (take (Suc j) cs) (on_event c evt))" by simp
  qed
  from Cons.IH [OF rest] first show ?case by (simp add: Let_def)
qed

lemma dispatch_stop:
  "k < length cs \<Longrightarrow> \<forall>j<k. \<not> prevented (feed (take (Suc j) cs) evt)
   \<Longrightarrow> prevented (feed (take (Suc k) cs) evt)
   \<Longrightarrow> dispatch (map Comp cs) evt
       = (feed (take (Suc k) cs) evt, hook_calls (take (Suc k) cs) evt)"
proof (induction cs arbitrary: k evt)
  case Nil
  then show ?case by simp
next
  case (Cons c cs)
  show ?case
  proof (cases k)
    case 0
    with Cons.prems show ?thesis by (simp add: Let_def)
  next
    case (Suc k')
    with Cons.prems have first: "\<not> prevented (on_event c evt)"
      by (auto dest: spec [of _ 0])
    have len: "k' < length cs" using Cons.prems Suc by simp
    have rest: "\<forall>j<k'. \<not> prevented (feed (take (Suc j) cs) (on_event c evt))"
    proof (intro allI impI)
      fix j assume "j < k'"
      with Cons.prems Suc have "\<not> prevented (feed (take (Suc (Suc j)) (c # cs)) evt)"
        by (metis Suc_less_eq)
      then show "\<not> prevented (feed (take (Suc j) cs) (on_event c evt))" by simp
    qed
    have stop: "prevented (feed (take (Suc k') cs) (on_event c evt))"
      using Cons.prems Suc by simp
    from Cons.IH [OF len rest stop] first Suc show ?thesis by (simp add: Let_def)
  qed
qed

text \<open>
  C1. \<^verbatim>\<open>fire_event\<close> starts from an event that is not prevented and runs the event hooks of
  the attached components in store order, each on the event as the one before left it. If
  the hook of the component at position \<open>k\<close> is the first to leave the event prevented, the
  hooks of the components up to \<open>k\<close> are the only ones called and the event is returned as
  that hook left it, prevented. If no hook leaves it prevented, every component's hook is
  called and the event is returned as the last one left it.
\<close>

theorem fire_event_dispatch:
  "\<not> prevented (EntityEvent_init nm d)
 \<and> (\<forall>k<length (attached e).
       (\<forall>j<k. \<not> prevented (feed (take (Suc j) (attached e)) (EntityEvent_init nm d)))
       \<and> prevented (feed (take (Suc k) (attached e)) (EntityEvent_init nm d))
       \<longrightarrow> fire_event e nm d
             = (feed (take (Suc k) (attached e)) (EntityEvent_init nm d),
                hook_calls (take (Suc k) (attached e)) (EntityEvent_init nm d))
           \<and> prevented (fst (fire_event e nm d)))
 \<and> ((\<forall>j<length (attached e).
        \<not> prevented (feed (take (Suc j) (attached e)) (EntityEvent_init nm d)))
       \<longrightarrow> fire_event e nm d
             = (feed (attached e) (EntityEvent_init nm d),
                hook_calls (attached e) (EntityEvent_init nm d)))"
proof (intro conjI allI impI)
  show "\<not> prevented (EntityEvent_init nm d)" by (simp add: EntityEvent_init_def)
next
  fix k
  assume k: "k < length (attached e)"
    and h: "(\<forall>j<k. \<not> prevented (feed (take (Suc j) (attached e)) (EntityEvent_init nm d)))
       \<and> prevented (feed (take (Suc k) (attached e)) (EntityEvent_init nm d))"
  from h have a: "\<forall>j<k. \<not> prevented (feed (take (Suc j) (attached e)) (EntityEvent_init nm d))"
    and b: "prevented (feed (take (Suc k) (attached e)) (EntityEvent_init nm d))" by simp_all
  show r: "fire_event e nm d
             = (feed (take (Suc k) (attached e)) (EntityEvent_init nm d),
                hook_calls (take (Suc k) (attached e)) (EntityEvent_init nm d))"
    unfolding fire_event_attached by (rule dispatch_stop [OF k a b])
  show "prevented (fst (fire_event e nm d))" unfolding r using b by simp
next
  assume a: "\<forall>j<length (attached e).
        \<not> prevented (feed (take (Suc j) (attached e)) (EntityEvent_init nm d))"
  show "fire_event e nm d
             = (feed (attached e) (EntityEvent_init nm d),
                hook_calls (attached e) (EntityEvent_init nm d))"
    unfolding fire_event_attached by (rule dispatch_all [OF a])
qed

lemma attached_hero: "attached hero = [armor, health]"
  by (simp add: attached_def hero_def dict_values_def)

lemma armor_prevents:
  "on_event armor (EntityEvent_init ''damage'' (damage (- 5)))
   = \<lparr>evt_name = ''damage'', data = damage (- 5), prevented = True\<rparr>"
  by (simp add: on_event_def armor_def Armor_def EntityEvent_init_def damage_def)

lemma armor_passes:
  "on_event armor (EntityEvent_init ''damage'' (damage 5))
   = \<lparr>evt_name = ''damage'', data = damage 5, prevented = False\<rparr>"
  by (simp add: on_event_def armor_def Armor_def EntityEvent_init_def damage_def)

lemma health_handles: "on_event health evt = evt\<lparr>data := PyStr ''handled''\<rparr>"
  by (simp add: on_event_def health_def Health_def)

theorem fire_event_dispatch_witness:
  "fire_event hero ''damage'' (damage (- 5))
     = (\<lparr>evt_name = ''damage'', data = damage (- 5), prevented = True\<rparr>,
        [OnEvent armor \<lparr>evt_name = ''damage'', data = damage (- 5), prevented = False\<rparr>])
 \<and> fire_event hero ''damage'' (damage 5)
     = (\<lparr>evt_name = ''damage'', data = PyStr ''handled'', prevented = False\<rparr>,
        [OnEvent armor \<lparr>evt_name = ''damage'', data = damage 5, prevented = False\<rparr>,
         OnEvent health \<lparr>evt_name = ''damage'', data = damage 5, prevented = False\<rparr>])"
proof -
  have stop: "0 < length (attached hero)
      \<and> (\<forall>j<0. \<not> prevented (feed (take (Suc j) (attached hero))
                                (EntityEvent_init ''damage'' (damage (- 5)))))
      \<and> prevented (feed (take (Suc 0) (attached hero))
                    (EntityEvent_init ''damage'' (damage (- 5))))"
    by (simp add: attached_hero armor_prevents)
  have pass: "\<forall>j<length (attached hero).
      \<not> prevented (feed (take (Suc j) (attached hero)) (EntityEvent_init ''damage'' (damage 5)))"
    by (simp add: attached_hero armor_passes health_handles less_Suc_eq)
  have a: "fire_event hero ''damage'' (damage (- 5))
      = (feed (take (Suc 0) (attached hero)) (EntityEvent_init ''damage'' (damage (- 5))),
         hook_calls (take (Suc 0) (attached hero)) (EntityEvent_init ''damage'' (damage (- 5))))"
    using fire_event_dispatch [of "''damage''" "damage (- 5)" hero] stop by blast
  have b: "fire_event hero ''damage'' (damage 5)
      = (feed (attached hero) (EntityEvent_init ''damage'' (damage 5)),
         hook_calls (attached hero) (EntityEvent_init ''damage'' (damage 5)))"
    using fire_event_dispatch [of "''damage''" "damage 5" hero] pass by blast
  show ?thesis
    unfolding a b
    by (simp add: attached_hero armor_prevents armor_passes health_handles)
       (simp add: EntityEvent_init_def)
qed

lemma feed_all_not_prevented:
  assumes "\<not> prevented evt" and "\<forall>j<length cs. \<not> prevented (feed (take (Suc j) cs) evt)"
  shows "\<not> prevented (feed cs evt)"
proof (cases cs rule: rev_cases)
  case Nil
  with assms(1) show ?thesis by simp
next
  case (snoc ys y)
  then have "length ys < length cs" and "take (Suc (length ys)) cs = cs" by simp_all
  with assms(2) show ?thesis by metis
qed

text \<open>
  C10. Let the store hold, somewhere, a value that is not a component instance.
  \<^verbatim>\<open>fire_event\<close> passes over it: the components it deals with are those before the entry
  followed by those after it, in store order. If the hook of the component at position
  \<open>n\<close> of these is the first to leave the event prevented, exactly the hooks up to \<open>n\<close> are
  called; if none does, the hook of every one of them is called, those after the entry
  included, and the event comes back not prevented, so the entry has neither been called
  nor set the flag. In every case the result is that of the entity without the entry.
\<close>

theorem fire_event_skips_other_values:
  assumes "store e = xs @ (k, Val v) # ys"
    and "cs = components_of (dict_values xs) @ components_of (dict_values ys)"
    and "ev0 = EntityEvent_init nm d"
  shows "attached e = cs
       \<and> fire_event e nm d = fire_event (e\<lparr>store := xs @ ys\<rparr>) nm d
       \<and> (\<forall>n<length cs.
             (\<forall>j<n. \<not> prevented (feed (take (Suc j) cs) ev0))
             \<and> prevented (feed (take (Suc n) cs) ev0)
             \<longrightarrow> fire_event e nm d
                   = (feed (take (Suc n) cs) ev0, hook_calls (take (Suc n) cs) ev0))
       \<and> ((\<forall>j<length cs. \<not> prevented (feed (take (Suc j) cs) ev0))
             \<longrightarrow> fire_event e nm d = (feed cs ev0, hook_calls cs ev0)
               \<and> \<not> prevented (fst (fire_event e nm d)))"
proof -
  have a: "attached e = cs"
    using assms(1,2) by (simp add: attached_def dict_values_def components_of_append)
  have b: "attached (e\<lparr>store := xs @ ys\<rparr>) = cs"
    using assms(2) by (simp add: attached_def dict_values_def components_of_append)
  have f: "fire_event e nm d = dispatch (map Comp cs) ev0"
    using fire_event_attached [of e nm d] a assms(3) by simp
  have g: "fire_event (e\<lparr>store := xs @ ys\<rparr>) nm d = dispatch (map Comp cs) ev0"
    using fire_event_attached [of "e\<lparr>store := xs @ ys\<rparr>" nm d] b assms(3) by simp
  have fresh: "\<not> prevented ev0"
    using assms(3) by (simp add: EntityEvent_init_def)
  have stop: "fire_event e nm d
                = (feed (take (Suc n) cs) ev0, hook_calls (take (Suc n) cs) ev0)"
    if "n < length cs" and "\<forall>j<n. \<not> prevented (feed (take (Suc j) cs) ev0)"
      and "prevented (feed (take (Suc n) cs) ev0)" for n
    unfolding f using that by (rule dispatch_stop)
  have pass: "fire_event e nm d = (feed cs ev0, hook_calls cs ev0)
              \<and> \<not> prevented (fst (fire_event e nm d))"
    if h: "\<forall>j<length cs. \<not> prevented (feed (take (Suc j) cs) ev0)"
  proof -
    have "fire_event e nm d = (feed cs ev0, hook_calls cs ev0)"
      unfolding f using h by (rule dispatch_all)
    moreover have "\<not> prevented (feed cs ev0)"
      using fresh h by (rule feed_all_not_prevented)
    ultimately show ?thesis by simp
  qed
  have same: "fire_event e nm d = fire_event (e\<lparr>store := xs @ ys\<rparr>) nm d"
    using f g by simp
  show ?thesis
    using a same stop pass by blast
qed

theorem fire_event_skips_other_values_witness:
  "attached cluttered = [armor, health]
 \<and> fire_event cluttered ''damage'' (damage 5)
     = (\<lparr>evt_name = ''damage'', data = PyStr ''handled'', prevented = False\<rparr>,
        [OnEvent armor \<lparr>evt_name = ''damage'', data = damage 5, prevented = False\<rparr>,
         OnEvent health \<lparr>evt_name = ''damage'', data = damage 5, prevented = False\<rparr>])
 \<and> fire_event cluttered ''damage'' (damage (- 5))
     = (\<lparr>evt_name = ''damage'', data = damage (- 5), prevented = True\<rparr>,
        [OnEvent armor \<lparr>evt_name = ''damage'', data = damage (- 5), prevented = False\<rparr>])"
proof -
  have h: "store cluttered = [(''ARMOR'', Comp armor)] @ (''junk'', Val (PyInt 7))
                              # [(''HEALTH'', Comp health)]"
    by (simp add: cluttered_def)
  have c: "[armor, health] = components_of (dict_values [(''ARMOR'', Comp armor)])
                             @ components_of (dict_values [(''HEALTH'', Comp health)])"
    by (simp add: dict_values_def)
  have pass: "\<forall>j<length [armor, health].
      \<not> prevented (feed (take (Suc j) [armor, health]) (EntityEvent_init ''damage'' (damage 5)))"
    by (simp add: armor_passes health_handles less_Suc_eq)
  have stop: "0 < length [armor, health]
      \<and> (\<forall>j<0. \<not> prevented (feed (take (Suc j) [armor, health])
                                (EntityEvent_init ''damage'' (damage (- 5)))))
      \<and> prevented (feed (take (Suc 0) [armor, health])
                    (EntityEvent_init ''damage'' (damage (- 5))))"
    by (simp add: armor_prevents)
  have a: "attached cluttered = [armor, health]"
    using fire_event_skips_other_values [OF h c refl, of "''damage''" "damage 5"] by blast
  have p: "fire_event cluttered ''damage'' (damage 5)
      = (feed [armor, health] (EntityEvent_init ''damage'' (damage 5)),
         hook_calls [armor, health] (EntityEvent_init ''damage'' (damage 5)))"
    using fire_event_skips_other_values [OF h c refl, of "''damage''" "damage 5"] pass
    by blast
  have s: "fire_event cluttered ''damage'' (damage (- 5))
      = (feed (take (Suc 0) [armor, health]) (EntityEvent_init ''damage'' (damage (- 5))),
         hook_calls (take (Suc 0) [armor, health]) (EntityEvent_init ''damage'' (damage (- 5))))"
    using fire_event_skips_other_values [OF h c refl, of "''damage''" "damage (- 5)"] stop
    by blast
  show ?thesis
    unfolding a p s
    by (simp add: armor_prevents armor_passes health_handles)
       (simp add: EntityEvent_init_def)
qed

section \<open>Destruction\<close>


lemma dict_set_components:
  "list_all is_component (dict_values d) \<Longrightarrow> is_component v
   \<Longrightarrow> list_all is_component (dict_values (dict_set d k v))"
  by (induction d) (auto simp: dict_values_def)

lemma dict_del_components:
  "list_all is_component (dict_values d) \<Longrightarrow> list_all is_component (dict_values (dict_del d k))"
  by (induction d) (auto simp: dict_values_def dict_del_def)

lemma after_components:
  assumes "list_all is_component (dict_values (store e))"
  shows "list_all is_component (dict_values (store (after ecs e x)))"
proof (cases x)
  case (Add component properties)
  then show ?thesis
    using assms
    by (auto simp: add_def attach_def Let_def dict_set_components split: sum.splits)
next
  case (Remove component)
  then show ?thesis
    using assms
    by (auto simp: remove_def component_remove_def dict_del_components
        split: sum.splits obj.splits)
next
  case Destroy
  then show ?thesis
    using assms by (auto simp: destroy_def Let_def split: prod.splits option.splits)
qed (use assms in simp_all)

text \<open>
  Whatever an entity is asked to do through its own methods, its store holds component
  instances only; other values can only come in through the inherited \<^verbatim>\<open>dict\<close> interface.
\<close>

lemma built_entity_components:
  "list_all is_component (dict_values (store (foldl (after ecs) (Entity_init generated u) xs)))"
proof -
  have "list_all is_component (dict_values (store e))
        \<Longrightarrow> list_all is_component (dict_values (store (foldl (after ecs) e xs)))" for e
    by (induction xs arbitrary: e) (simp_all add: after_components)
  then show ?thesis by (simp add: Entity_init_def dict_values_def)
qed

text \<open>A value without a \<^verbatim>\<open>destroy\<close> method in the store makes \<^verbatim>\<open>destroy\<close> raise instead.\<close>

lemma destroy_other_value:
  "destroy_values e vs = (Some err, calls) \<Longrightarrow> \<not> list_all is_component vs"
  by (induction vs arbitrary: calls rule: components_of.induct) (auto split: prod.splits)




lemma add_is_destroyed: "is_destroyed (fst (snd (add ecs e c p))) = is_destroyed e"
  by (simp add: add_def attach_def Let_def split: sum.splits)

lemma remove_is_destroyed: "is_destroyed (fst (snd (remove e c))) = is_destroyed e"
  by (simp add: remove_def component_remove_def split: sum.splits obj.splits)

lemma destroy_is_destroyed: "is_destroyed (fst (snd (destroy e)))"
  by (simp add: destroy_def Let_def split: prod.splits option.splits)

lemma after_keeps_destroyed: "is_destroyed e \<Longrightarrow> is_destroyed (after ecs e x)"
  by (cases x) (simp_all add: add_is_destroyed remove_is_destroyed destroy_is_destroyed)

lemma foldl_after_keeps_destroyed: "is_destroyed e \<Longrightarrow> is_destroyed (foldl (after ecs) e xs)"
  by (induction xs arbitrary: e) (simp_all add: after_keeps_destroyed)

text \<open>
  C9. \<^verbatim>\<open>is_destroyed\<close> is false on a new entity; no operation (\<^verbatim>\<open>add\<close>, \<^verbatim>\<open>remove\<close>, \<^verbatim>\<open>has\<close>,
  \<^verbatim>\<open>owns\<close>, \<^verbatim>\<open>fire_event\<close>, \<^verbatim>\<open>destroy\<close>, the indexed read), whether it returns or raises, and
  no sequence of them takes it from true back to false; and after \<^verbatim>\<open>destroy\<close> it is true
  and stays true under every later sequence of operations.
\<close>

theorem is_destroyed_monotonic:
  "\<not> is_destroyed (Entity_init generated u)
 \<and> (is_destroyed e \<longrightarrow> is_destroyed (after ecs e x))
 \<and> (is_destroyed e \<longrightarrow> is_destroyed (foldl (after ecs) e xs))
 \<and> is_destroyed (foldl (after ecs) (after ecs e Destroy) xs)"
  by (simp add: Entity_init_def after_keeps_destroyed foldl_after_keeps_destroyed
      destroy_is_destroyed)

theorem is_destroyed_monotonic_witness:
  "is_destroyed (hero\<lparr>is_destroyed := True\<rparr>)
 \<and> is_destroyed (after world (hero\<lparr>is_destroyed := True\<rparr>)
                   (Add (Str ''position'') [''x'' \<mapsto> PyInt 1, ''y'' \<mapsto> PyInt 2]))
 \<and> is_destroyed (foldl (after world) (hero\<lparr>is_destroyed := True\<rparr>)
                   [Remove (Str ''armor''), Has (Ref Armor), Owns armor,
                    FireEvent ''damage'' (damage 5), GetItem (Str ''mana''), Destroy])"
proof -
  have h: "is_destroyed (hero\<lparr>is_destroyed := True\<rparr>)" by simp
  show ?thesis
    using h
      is_destroyed_monotonic [of "''g''" None "hero\<lparr>is_destroyed := True\<rparr>" world
        "Add (Str ''position'') [''x'' \<mapsto> PyInt 1, ''y'' \<mapsto> PyInt 2]"
        "[Remove (Str ''armor''), Has (Ref Armor), Owns armor,
          FireEvent ''damage'' (damage 5), GetItem (Str ''mana''), Destroy]"]
    by blast
qed

section \<open>Attaching\<close>

text \<open>
  C2. Let the kind \<open>k\<close> be registered and let the argument name it, by a string in any
  casing or by reference. If \<^verbatim>\<open>add\<close> returns, it returns \<^verbatim>\<open>True\<close>; the instance is the one
  the factory created, of kind \<open>k\<close>; on the entity afterwards \<^verbatim>\<open>has\<close> answers \<^verbatim>\<open>True\<close> and
  the indexed read returns that instance; and the one call made is the instance's
  attachment hook, with the entity as it then is.
\<close>

theorem add_attaches:
  assumes "component_registry ecs (name k) = Some k"
    and "registry_key component = name k"
    and "add ecs e component properties = (Inr r, e', calls)"
  shows "r = True
       \<and> (\<exists>c. create_component ecs component properties = Inr c \<and> cls c = k
            \<and> has e' component = Inr (PyBool True)
            \<and> getitem e' component = Inr (Comp c)
            \<and> calls = [OnAttached c e'] \<and> uid e' = uid e)"
proof -
  from assms obtain fs where fs: "init k properties = Inr fs"
    by (auto simp: add_def create_component_def create_def registry_get_def instantiate_def
        split: sum.splits)
  let ?c = "\<lparr>cls = k, attrs = fs\<rparr>"
  have c: "create_component ecs component properties = Inr ?c"
    using assms(1,2) fs
    by (simp add: create_component_def create_def registry_get_def instantiate_def)
  have key: "entity_key component = name k"
    using assms(2) by (cases component) (simp_all add: upper_name)
  from assms(3) c have r: "r = True"
    and e': "e' = e\<lparr>store := dict_set (store e) (name k) (Comp ?c)\<rparr>"
    and calls: "calls = [OnAttached ?c e']"
    by (auto simp: add_def attach_def Let_def)
  have g: "getitem e' component = Inr (Comp ?c)"
    by (simp add: getitem_def dict_get_def key e' map_of_dict_set)
  have h: "has e' component = Inr (PyBool True)"
    using key by (cases component)
      (simp_all add: has_def getitem_def dict_get_def e' map_of_dict_set upper_name)
  have u: "uid e' = uid e" by (simp add: e')
  show ?thesis using r c g h calls u by simp
qed

theorem add_attaches_witness:
  "add world (Entity_init ''generated'' (Some ''scout'')) (Str ''position'')
       [''x'' \<mapsto> PyInt 1, ''y'' \<mapsto> PyInt 2]
     = (Inr True, scout, [OnAttached position scout])
 \<and> has scout (Str ''position'') = Inr (PyBool True)
 \<and> getitem scout (Str ''position'') = Inr (Comp position)"
proof -
  have h1: "component_registry world (name Position) = Some Position"
    by (simp add: world_def register_def)
  have h2: "registry_key (Str ''position'') = name Position"
    by (simp add: name_Position upper_examples)
  have i: "init Position [''x'' \<mapsto> PyInt 1, ''y'' \<mapsto> PyInt 2]
           = Inr [''x'' \<mapsto> PyInt 1, ''y'' \<mapsto> PyInt 2]"
    by (simp add: Position_def)
  have c: "create_component world (Str ''position'') [''x'' \<mapsto> PyInt 1, ''y'' \<mapsto> PyInt 2]
           = Inr position"
    using h1 i
    by (simp add: create_component_def create_def registry_get_def instantiate_def
        upper_examples name_Position position_def)
  have h3: "add world (Entity_init ''generated'' (Some ''scout'')) (Str ''position'')
              [''x'' \<mapsto> PyInt 1, ''y'' \<mapsto> PyInt 2]
            = (Inr True, scout, [OnAttached position scout])"
    by (simp add: add_def c attach_def Let_def Entity_init_def scout_def)
       (simp add: position_def name_Position)
  show ?thesis
    using add_attaches [OF h1 h2 h3] h3 c by auto
qed

end
